theory Spec2Isabelle
  imports Complex_Main "HOL-Library.Word" "HOL-Library.Sublist" "HOL-Library.Multiset"
    "HOL-Library.Log_Nat" "HOL-Library.Signed_Division"
begin

section \<open>Bytes, slices and \<open>bytes.Index\<close>\<close>

text \<open>
  A Go \<open>[]byte\<close> is a list of 8-bit words. Offsets into a buffer are natural numbers;
  the one place where Go reports a negative number, the \<open>-1\<close> of \<open>bytes.Index\<close>, is
  the value \<open>None\<close>.
\<close>

type_synonym byte = "8 word"

text \<open>
  \<open>bytes.Index(s, sep)\<close> of the Go standard library: the index of the first instance of
  \<open>sep\<close> in \<open>s\<close>, or \<open>-1\<close> (here \<open>None\<close>) when \<open>sep\<close> does not occur in \<open>s\<close>.
\<close>

fun bytes_Index :: "byte list \<Rightarrow> byte list \<Rightarrow> nat option" where
  "bytes_Index [] sep = (if sep = [] then Some 0 else None)"
| "bytes_Index (x # xs) sep =
     (if prefix sep (x # xs) then Some 0 else map_option Suc (bytes_Index xs sep))"

text \<open>
  The slice expression \<open>data[a:b]\<close>, copied into a fresh buffer. Go panics when
  \<open>a > b\<close> or \<open>b > len(data)\<close>; the scan below only produces offsets with
  \<open>a \<le> b \<le> len(data)\<close> (lemma \<open>scan_positions_bounds\<close>), where the slice is this:
\<close>

definition slice :: "byte list \<Rightarrow> nat \<Rightarrow> nat \<Rightarrow> byte list" where
  "slice data a b = take (b - a) (drop a data)"

definition jpegStart :: "byte list" where
  "jpegStart = [0xFF, 0xD8]"

definition jpegEnd :: "byte list" where
  "jpegEnd = [0xFF, 0xD9]"

section \<open>The frame demuxer\<close>

text \<open>
  The \<open>error\<close> values of the package. \<open>fmt.Errorf("<prefix>: %w", err)\<close> is
  \<open>Wrapped prefix err\<close>; an error made outside the package (by \<open>os\<close>, \<open>os/exec\<close>
  or an \<open>io.Reader\<close>) is \<open>External\<close> with its message.
\<close>

datatype error =
    NoFramesFound                \<comment> \<open>\<open>"no valid JPEG frames found"\<close>\<close>
  | VideoTooShort                \<comment> \<open>\<open>"video too short or invalid"\<close>\<close>
  | CorruptInputError            \<comment> \<open>\<open>base64.CorruptInputError\<close>, its offset left out\<close>
  | EOF                          \<comment> \<open>\<open>io.EOF\<close>\<close>
  | External string
  | Wrapped string error

subsection \<open>Sequential: \<open>splitJPEGFrames\<close>\<close>

text \<open>
  The loop \<open>for i < len(data) { ... }\<close> of \<open>splitJPEGFrames\<close>, with the loop variables
  \<open>i\<close> and \<open>frames\<close> as arguments. Each \<open>break\<close> returns the frames collected so far.
  The loop is the same text in \<open>VideoProcessor.splitJPEGFrames\<close> and in
  \<open>StreamProcessor.splitJPEGFrames\<close>.
\<close>

function splitJPEGFrames_loop :: "byte list \<Rightarrow> nat \<Rightarrow> byte list list \<Rightarrow> byte list list" where
  "splitJPEGFrames_loop data i frames =
     (if i < length data then
        (case bytes_Index (drop i data) jpegStart of
           None \<Rightarrow> frames
         | Some s \<Rightarrow>
             (let startIdx = s + i in
              (case bytes_Index (drop (startIdx + 2) data) jpegEnd of
                 None \<Rightarrow> frames
               | Some e \<Rightarrow>
                   (let endIdx = e + (startIdx + 2 + 2);
                        frame = slice data startIdx endIdx
                    in splitJPEGFrames_loop data endIdx (frames @ [frame])))))
      else frames)"
  by pat_completeness auto
termination
  by (relation "measure (\<lambda>(data, i, frames). length data - i)") auto

declare splitJPEGFrames_loop.simps [simp del]

definition splitJPEGFrames :: "byte list \<Rightarrow> error + byte list list" where
  "splitJPEGFrames data =
     (let frames = splitJPEGFrames_loop data 0 []
      in if length frames = 0 then Inl NoFramesFound else Inr frames)"

text \<open>
  \<open>StreamProcessor.splitJPEGFrames\<close> is a second copy of the same function on the
  other receiver; neither reads a field of its receiver.
\<close>

definition sp_splitJPEGFrames :: "byte list \<Rightarrow> error + byte list list" where
  "sp_splitJPEGFrames data =
     (let frames = splitJPEGFrames_loop data 0 []
      in if length frames = 0 then Inl NoFramesFound else Inr frames)"

subsection \<open>Concurrent: \<open>splitJPEGFramesConcurrent\<close>\<close>

record VideoProcessor =
  vp_FPS :: int
  MaxWorkers :: int
  BufferSize :: int
  EnableHWAccel :: bool
  UseStreamMode :: bool

text \<open>The local type \<open>framePos\<close>: \<open>start\<close>, \<open>end\<close> and \<open>index\<close>.\<close>

record framePos =
  fp_start :: nat
  fp_end :: nat
  fp_index :: nat

text \<open>
  First pass: the boundary scan, with the loop variables \<open>i\<close>, \<open>frameIndex\<close> and
  \<open>positions\<close> as arguments.
\<close>

function scan_positions :: "byte list \<Rightarrow> nat \<Rightarrow> nat \<Rightarrow> framePos list \<Rightarrow> framePos list" where
  "scan_positions data i frameIndex positions =
     (if i < length data then
        (case bytes_Index (drop i data) jpegStart of
           None \<Rightarrow> positions
         | Some s \<Rightarrow>
             (let startIdx = s + i in
              (case bytes_Index (drop (startIdx + 2) data) jpegEnd of
                 None \<Rightarrow> positions
               | Some e \<Rightarrow>
                   (let endIdx = e + (startIdx + 2 + 2) in
                    scan_positions data endIdx (frameIndex + 1)
                      (positions @
                         [\<lparr>fp_start = startIdx, fp_end = endIdx, fp_index = frameIndex\<rparr>])))))
      else positions)"
  by pat_completeness auto
termination
  by (relation "measure (\<lambda>(data, i, frameIndex, positions). length data - i)") auto

declare scan_positions.simps [simp del]

text \<open>
  Second pass. A worker takes a job from the channel, copies \<open>data[pos.start:pos.end]\<close>
  and stores the copy in \<open>frames[pos.index]\<close>. The jobs write to distinct slots, so the
  pool is modelled by the order in which its jobs are completed: \<open>copy_jobs\<close> runs the
  jobs of a list in that order. (An index outside \<open>frames\<close> would panic in Go;
  \<open>scan_positions_index\<close> shows that the scan numbers the positions
  \<open>0, 1, ..., len(positions) - 1\<close>.)
\<close>

fun copy_jobs :: "byte list \<Rightarrow> framePos list \<Rightarrow> byte list list \<Rightarrow> byte list list" where
  "copy_jobs data [] frames = frames"
| "copy_jobs data (pos # jobs) frames =
     copy_jobs data jobs (frames[fp_index pos := slice data (fp_start pos) (fp_end pos)])"

text \<open>
  What a call does: it returns a value, or it panics (the runtime ends the program),
  or it blocks forever.
\<close>

datatype 'a outcome = Returns 'a | Panics | Blocks

text \<open>
  \<open>splitJPEGFramesConcurrent\<close>. The argument \<open>sched\<close> stands for the Go scheduler:
  it maps the jobs sent on the channel to the order in which the worker pool completes
  them, a permutation of the jobs.
  \<^item> \<open>make(chan framePos, vp.BufferSize)\<close> panics (\<open>makechan: size out of range\<close>)
    for a negative size and for a size whose buffer passes the allocation limit of the
    runtime; a buffer the machine has no memory for ends the program as well. The
    argument \<open>maxChanCap\<close> is the largest capacity for which \<open>make\<close> returns a
    channel of \<open>framePos\<close>: it depends on the platform and on the memory at hand, and
    lies below \<open>2^44\<close> elements where addresses have 48 bits (an element is three
    words). Every larger size is the outcome \<open>Panics\<close>.
  \<^item> \<open>for w := 0; w < vp.MaxWorkers; w++\<close> starts no worker when \<open>MaxWorkers \<le> 0\<close>.
    Then the sends fill the channel's buffer: when all jobs fit, the channel is closed,
    \<open>wg.Wait()\<close> returns at once and the slots of \<open>frames\<close> are still \<open>nil\<close>;
    when they do not fit, the send blocks forever.
  \<^item> With at least one worker every job is received and completed before \<open>wg.Wait()\<close>
    returns.
\<close>

definition splitJPEGFramesConcurrent ::
  "int \<Rightarrow> VideoProcessor \<Rightarrow> (framePos list \<Rightarrow> framePos list) \<Rightarrow> byte list
     \<Rightarrow> (error + byte list list) outcome" where
  "splitJPEGFramesConcurrent maxChanCap vp sched data =
     (let positions = scan_positions data 0 0 [] in
      if length positions = 0 then Returns (Inl NoFramesFound)
      else
        (let frames = replicate (length positions) [] in
         if BufferSize vp < 0 \<or> maxChanCap < BufferSize vp then Panics
         else if MaxWorkers vp \<le> 0 then
           (if int (length positions) \<le> BufferSize vp then Returns (Inr frames) else Blocks)
         else Returns (Inr (copy_jobs data (sched positions) frames))))"

subsection \<open>Notions used to state the demuxer's properties\<close>

text \<open>
  One iteration of the boundary scan at cursor \<open>i\<close>, shared by the two loops above: the
  offsets \<open>(startIdx, endIdx)\<close> of the next frame, or \<open>None\<close> where the loop stops.
\<close>

definition next_frame :: "byte list \<Rightarrow> nat \<Rightarrow> (nat \<times> nat) option" where
  "next_frame data i =
     (if i < length data then
        (case bytes_Index (drop i data) jpegStart of
           None \<Rightarrow> None
         | Some s \<Rightarrow>
             (case bytes_Index (drop (s + i + 2) data) jpegEnd of
                None \<Rightarrow> None
              | Some e \<Rightarrow> Some (s + i, e + (s + i + 2 + 2))))
      else None)"

text \<open>The offsets at which a marker occurs in a buffer.\<close>

definition marker_offsets :: "byte list \<Rightarrow> byte list \<Rightarrow> nat list" where
  "marker_offsets data m = filter (\<lambda>k. prefix m (drop k data)) [0 ..< length data]"

text \<open>
  A complete SOI/EOI pair: an SOI marker at some offset \<open>a\<close> and an EOI marker at an
  offset \<open>b\<close> behind it (\<open>a + 2 \<le> b\<close>, the two markers do not overlap).
\<close>

definition has_complete_pair :: "byte list \<Rightarrow> bool" where
  "has_complete_pair data \<longleftrightarrow>
     (\<exists>a \<in> set (marker_offsets data jpegStart).
        \<exists>b \<in> set (marker_offsets data jpegEnd). a + 2 \<le> b)"

text \<open>
  A well-formed SOI/EOI-delimited image is SOI, a body, EOI, where the body holds no EOI
  marker of its own (\<open>body_ok\<close>). Filler holds neither marker (\<open>filler_ok\<close>).
  \<open>interleave f0 [(b1, f1), ..., (bN, fN)]\<close> is the buffer
  \<open>f0, image b1, f1, ..., image bN, fN\<close>.
\<close>

definition jpeg_image :: "byte list \<Rightarrow> byte list" where
  "jpeg_image body = jpegStart @ body @ jpegEnd"




section \<open>Go integers and floating-point numbers\<close>

text \<open>
  Go's \<open>int\<close> is a 64-bit two's-complement integer on the platforms the package targets.
  It is modelled by the integer it denotes; \<open>wrap64\<close> is the wrap-around of an
  arithmetic result. \<open>/\<close> and \<open>%\<close> truncate towards zero (\<open>sdiv\<close>, \<open>smod\<close>).
\<close>

definition wrap64 :: "int \<Rightarrow> int" where
  "wrap64 x = (x + 2 ^ 63) mod 2 ^ 64 - 2 ^ 63"

definition go_add :: "int \<Rightarrow> int \<Rightarrow> int" where
  "go_add a b = wrap64 (a + b)"

definition go_sub :: "int \<Rightarrow> int \<Rightarrow> int" where
  "go_sub a b = wrap64 (a - b)"

definition go_mul :: "int \<Rightarrow> int \<Rightarrow> int" where
  "go_mul a b = wrap64 (a * b)"

definition go_div :: "int \<Rightarrow> int \<Rightarrow> int" where
  "go_div a b = wrap64 (a sdiv b)"

definition go_mod :: "int \<Rightarrow> int \<Rightarrow> int" where
  "go_mod a b = a smod b"

text \<open>
  A finite \<open>float64\<close> is modelled by the real number it denotes. Every arithmetic
  operation is the exact operation followed by \<open>float64_round\<close>: rounding to the nearest
  number with a 53-bit significand, ties to the even significand (IEEE 754 binary64;
  the exponent range is not modelled, no value of this package comes near its ends).
  \<open>binary_exponent x\<close> is the integer part of the binary logarithm of \<open>x > 0\<close>.
\<close>

definition round_to_even :: "real \<Rightarrow> int" where
  "round_to_even x =
     (let f = \<lfloor>x\<rfloor>; d = x - of_int f
      in if d < 1 / 2 then f else if 1 / 2 < d then f + 1 else if even f then f else f + 1)"

definition binary_exponent :: "real \<Rightarrow> int" where
  "binary_exponent x = (if 1 \<le> x then bitlen \<lfloor>x\<rfloor> - 1 else - bitlen (\<lceil>1 / x\<rceil> - 1))"

definition float64_round :: "real \<Rightarrow> real" where
  "float64_round x =
     (if x = 0 then 0
      else let e = binary_exponent \<bar>x\<bar> in
        if 52 \<le> e then of_int (round_to_even (x / 2 ^ nat (e - 52))) * 2 ^ nat (e - 52)
        else of_int (round_to_even (x * 2 ^ nat (52 - e))) / 2 ^ nat (52 - e))"

text \<open>The conversion \<open>float64(n)\<close> of an \<open>int\<close>, and the operators \<open>/\<close> and \<open>*\<close>.\<close>

definition float64_of_int :: "int \<Rightarrow> real" where
  "float64_of_int n = float64_round (of_int n)"

definition float64_div :: "real \<Rightarrow> real \<Rightarrow> real" where
  "float64_div x y = float64_round (x / y)"

definition float64_mul :: "real \<Rightarrow> real \<Rightarrow> real" where
  "float64_mul x y = float64_round (x * y)"

text \<open>
  The conversion \<open>int(x)\<close> of a \<open>float64\<close> discards the fraction (truncation towards
  zero). For a value outside the range of \<open>int\<close> Go leaves the result to the
  implementation; the model is only used inside the range.
\<close>

definition float64_to_int :: "real \<Rightarrow> int" where
  "float64_to_int x = (if 0 \<le> x then \<lfloor>x\<rfloor> else \<lceil>x\<rceil>)"

text \<open>\<open>fmt.Sprintf("%d", n)\<close>: the decimal digits of an integer.\<close>

function decimal :: "nat \<Rightarrow> string" where
  "decimal n = (if 10 \<le> n then decimal (n div 10) else []) @ [''0123456789'' ! (n mod 10)]"
  by pat_completeness auto
termination
  by (relation "measure id") auto

declare decimal.simps [simp del]

definition Sprintf_d :: "int \<Rightarrow> string" where
  "Sprintf_d n = (if n < 0 then CHR ''-'' # decimal (nat (- n)) else decimal (nat n))"

section \<open>\<open>VideoProcessor.ExtractFramesWithContext\<close>\<close>

text \<open>\<open>buildFFmpegArgs\<close>.\<close>

definition buildFFmpegArgs :: "VideoProcessor \<Rightarrow> string \<Rightarrow> string list" where
  "buildFFmpegArgs vp videoPath =
     (let args = [];
          args = (if EnableHWAccel vp then args @ [''-hwaccel'', ''auto''] else args);
          args = args @ [''-i'', videoPath];
          args = args @ [''-vf'', ''fps='' @ Sprintf_d (vp_FPS vp)];
          args = args @ [''-f'', ''image2pipe'', ''-vcodec'', ''mjpeg'', ''-q:v'', ''5'',
                         ''-threads'', Sprintf_d (MaxWorkers vp), ''-'']
      in args)"

text \<open>
  The world outside the package, as far as \<open>ExtractFramesWithContext\<close> asks it:
  \<^item> \<open>LookPath name\<close>: the error of \<open>exec.LookPath(name)\<close>, \<open>None\<close> when the program
    is found;
  \<^item> \<open>getVideoDuration path\<close>: what \<open>vp.getVideoDuration\<close> returns, the duration that
    \<open>ffprobe\<close> printed parsed as a \<open>float64\<close>, or the error of running or parsing;
  \<^item> \<open>ffmpeg args\<close>: the result of \<open>cmd.Run()\<close> on \<open>ffmpeg\<close> with these arguments under
    the context: the error, or the bytes written to standard output;
  \<^item> \<open>makechan_limit\<close>: the largest capacity for which \<open>make\<close> returns a channel,
    the argument \<open>maxChanCap\<close> of \<open>splitJPEGFramesConcurrent\<close>.
\<close>

record exec_env =
  LookPath :: "string \<Rightarrow> error option"
  getVideoDuration :: "string \<Rightarrow> error + real"
  ffmpeg :: "string list \<Rightarrow> error + byte list"
  makechan_limit :: int

text \<open>The calls a run makes, in order, so that "never invoked" can be stated.\<close>

datatype call =
    CallLookPath string
  | CallFFprobe string
  | CallFFmpeg "string list"
  | CallSplit "byte list"

definition wrap_split ::
  "(error + byte list list) outcome \<Rightarrow> (error + byte list list) outcome" where
  "wrap_split r =
     (case r of
        Returns (Inl err) \<Rightarrow> Returns (Inl (Wrapped ''failed to split frames'' err))
      | Returns (Inr frames) \<Rightarrow> Returns (Inr frames)
      | Panics \<Rightarrow> Panics
      | Blocks \<Rightarrow> Blocks)"

definition ExtractFramesWithContext ::
  "exec_env \<Rightarrow> (framePos list \<Rightarrow> framePos list) \<Rightarrow> VideoProcessor \<Rightarrow> string
     \<Rightarrow> call list \<times> (error + byte list list) outcome" where
  "ExtractFramesWithContext env sched vp videoPath =
     (case LookPath env ''ffmpeg'' of
        Some err \<Rightarrow> ([CallLookPath ''ffmpeg''], Returns (Inl (Wrapped ''ffmpeg not found'' err)))
      | None \<Rightarrow>
          (case getVideoDuration env videoPath of
             Inl err \<Rightarrow>
               ([CallLookPath ''ffmpeg'', CallFFprobe videoPath],
                Returns (Inl (Wrapped ''failed to get video duration'' err)))
           | Inr duration \<Rightarrow>
               (let totalFrames = go_mul (float64_to_int duration) (vp_FPS vp) in
                if totalFrames = 0 then
                  ([CallLookPath ''ffmpeg'', CallFFprobe videoPath], Returns (Inl VideoTooShort))
                else
                  (let args = buildFFmpegArgs vp videoPath in
                   case ffmpeg env args of
                     Inl err \<Rightarrow>
                       ([CallLookPath ''ffmpeg'', CallFFprobe videoPath, CallFFmpeg args],
                        Returns (Inl (Wrapped ''ffmpeg error'' err)))
                   | Inr data \<Rightarrow>
                       ([CallLookPath ''ffmpeg'', CallFFprobe videoPath, CallFFmpeg args,
                         CallSplit data],
                        wrap_split
                          (splitJPEGFramesConcurrent (makechan_limit env) vp sched data))))))"

section \<open>\<open>StreamProcessor\<close>\<close>

text \<open>The struct without its mutex: the model is sequential.\<close>

record StreamProcessor =
  FPS :: int
  TargetWidth :: int
  TargetHeight :: int
  Quality :: int
  SPS :: string
  PPS :: string
  tempDir :: string

definition NewStreamProcessor :: StreamProcessor where
  "NewStreamProcessor =
     \<lparr>FPS = 2, TargetWidth = 1120, TargetHeight = 1120, Quality = 90,
      SPS = ''Z0LADJoFAAABMA=='', PPS = ''aM48gA=='', tempDir = []\<rparr>"

definition WithResolution :: "int \<Rightarrow> int \<Rightarrow> StreamProcessor \<Rightarrow> StreamProcessor" where
  "WithResolution width height sp =
     (let (width, height) =
            (if go_mod width 28 \<noteq> 0 \<or> go_mod height 28 \<noteq> 0
             then (go_mul (go_div (go_add width 13) 28) 28,
                   go_mul (go_div (go_add height 13) 28) 28)
             else (width, height))
      in sp\<lparr>TargetWidth := width, TargetHeight := height\<rparr>)"

definition WithQuality :: "int \<Rightarrow> StreamProcessor \<Rightarrow> StreamProcessor" where
  "WithQuality quality sp =
     (let quality = (if quality < 1 then 1 else quality);
          quality = (if quality > 100 then 100 else quality)
      in sp\<lparr>Quality := quality\<rparr>)"

subsection \<open>\<open>injectSPSPPS\<close>\<close>

text \<open>
  \<open>base64.StdEncoding.DecodeString\<close> of the Go standard library: the standard alphabet
  with \<open>=\<close> padding, not strict. It skips carriage returns and line feeds, decodes
  quanta of four characters and accepts padding only in the last quantum. It returns the
  bytes decoded so far together with the error; the second component here tells whether
  there is an error (a \<open>CorruptInputError\<close>).
\<close>

definition encodeStd :: string where
  "encodeStd = ''ABCDEFGHIJKLMNOPQRSTUVWXYZabcdefghijklmnopqrstuvwxyz0123456789+/''"

fun index_of :: "'a \<Rightarrow> 'a list \<Rightarrow> nat option" where
  "index_of c [] = None"
| "index_of c (x # xs) = (if c = x then Some 0 else map_option Suc (index_of c xs))"

definition decodeMap :: "char \<Rightarrow> nat option" where
  "decodeMap c = index_of c encodeStd"

definition quantum_bytes :: "nat \<Rightarrow> nat \<Rightarrow> nat \<Rightarrow> nat \<Rightarrow> byte list" where
  "quantum_bytes a b c d =
     (let val = a * 262144 + b * 4096 + c * 64 + d
      in [of_nat (val div 65536), of_nat (val div 256), of_nat val])"

fun decode_quanta :: "string \<Rightarrow> byte list \<times> bool" where
  "decode_quanta [] = ([], False)"
| "decode_quanta [a] = ([], True)"
| "decode_quanta [a, b] = ([], True)"
| "decode_quanta [a, b, c] = ([], True)"
| "decode_quanta (a # b # c # d # rest) =
     (case (decodeMap a, decodeMap b) of
        (Some va, Some vb) \<Rightarrow>
          (case decodeMap c of
             Some vc \<Rightarrow>
               (case decodeMap d of
                  Some vd \<Rightarrow>
                    (let (bs, err) = decode_quanta rest
                     in (quantum_bytes va vb vc vd @ bs, err))
                | None \<Rightarrow>
                    if d = CHR ''='' then (take 2 (quantum_bytes va vb vc 0), rest \<noteq> [])
                    else ([], True))
           | None \<Rightarrow>
               if c = CHR ''='' \<and> d = CHR ''=''
               then (take 1 (quantum_bytes va vb 0 0), rest \<noteq> [])
               else ([], True))
      | _ \<Rightarrow> ([], True))"

definition base64_DecodeString :: "string \<Rightarrow> byte list \<times> bool" where
  "base64_DecodeString s = decode_quanta (filter (\<lambda>c. c \<noteq> CHR 0x0A \<and> c \<noteq> CHR 0x0D) s)"

definition startCode :: "byte list" where
  "startCode = [0x00, 0x00, 0x00, 0x01]"

definition injectSPSPPS :: "StreamProcessor \<Rightarrow> byte list \<Rightarrow> error + byte list" where
  "injectSPSPPS sp h264Data =
     (let (spsData, err) = base64_DecodeString (SPS sp) in
      if err then Inl (Wrapped ''invalid SPS'' CorruptInputError)
      else
        (let (ppsData, err) = base64_DecodeString (PPS sp) in
         if err then Inl (Wrapped ''invalid PPS'' CorruptInputError)
         else Inr (startCode @ spsData @ startCode @ ppsData @ h264Data)))"

subsection \<open>The quality scale of \<open>extractFramesFromH264\<close>\<close>

text \<open>
  The local variable \<open>qscale\<close> of \<open>extractFramesFromH264\<close>, which the function formats
  with \<open>%d\<close> into the argument behind \<open>-q:v\<close>:
  \<open>31 - int(float64(sp.Quality-1)/99.0*29.0)\<close>, then limited to \<open>[2, 31]\<close>. Its argument
  is the field \<open>sp.Quality\<close>.
\<close>

definition qscale :: "int \<Rightarrow> int" where
  "qscale quality =
     (let qscale =
            go_sub 31
              (float64_to_int
                 (float64_mul (float64_div (float64_of_int (go_sub quality 1)) 99) 29));
          qscale = (if qscale < 2 then 2 else qscale);
          qscale = (if qscale > 31 then 31 else qscale)
      in qscale)"

text \<open>
  The formula of the specification, \<open>clamp(round(31 - (quality - 1)/99 * 29), 2, 31)\<close>,
  on the real numbers.
\<close>

definition spec_qscale :: "int \<Rightarrow> int" where
  "spec_qscale q = max 2 (min 31 (round (31 - (of_int q - 1) / 99 * 29 :: real)))"

subsection \<open>\<open>Cleanup\<close>\<close>

text \<open>
  \<open>Cleanup\<close>, given what \<open>os.RemoveAll\<close> answers for a path. The result is the list of
  paths handed to \<open>os.RemoveAll\<close>, the returned error and the processor afterwards.
\<close>

definition Cleanup ::
  "(string \<Rightarrow> error option) \<Rightarrow> StreamProcessor
     \<Rightarrow> string list \<times> error option \<times> StreamProcessor" where
  "Cleanup RemoveAll sp =
     (if tempDir sp \<noteq> [] then
        (let err = RemoveAll (tempDir sp)
         in ([tempDir sp], err, sp\<lparr>tempDir := []\<rparr>))
      else ([], None, sp))"

section \<open>The worker of \<open>StreamFrameExtractor.Start\<close>\<close>

text \<open>
  The goroutine started by \<open>Start\<close> is modelled by the sequence of events it produces,
  given what its surroundings do in each iteration of the \<open>for\<close> loop:
  \<^item> \<open>ctx_done\<close>: whether \<open>sfe.ctx.Done()\<close> is ready at the \<open>select\<close> that opens the
    iteration;
  \<^item> \<open>read_bytes\<close> and \<open>read_err\<close>: the result \<open>(n, err)\<close> of \<open>streamReader.Read(buffer)\<close>,
    with \<open>buffer[:n]\<close> for \<open>n\<close>. An \<open>io.Reader\<close> may return \<open>n > 0\<close> together with
    an error, \<open>io.EOF\<close> included;
  \<^item> \<open>process_result\<close>: what \<open>ProcessH264StreamWithContext\<close> returns for the chunk;
  \<^item> \<open>cancel_after\<close>: \<open>Some k\<close> when the context is cancelled while the frames of
    the chunk are sent, so that \<open>k\<close> sends win their \<open>select\<close> and then
    \<open>ctx.Done()\<close> does; \<open>None\<close> when all sends go through.
  The sends on \<open>errorChannel\<close> are taken to go through (a consumer drains the channel).
  The deferred calls run in reverse order of their \<open>defer\<close> statements:
  \<open>close(sfe.errorChannel)\<close>, \<open>close(sfe.frameChannel)\<close>, \<open>sfe.wg.Done()\<close>.
  When the list of iterations ends the worker is still running.
\<close>

record iteration =
  ctx_done :: bool
  read_bytes :: "byte list"
  read_err :: "error option"
  process_result :: "error + string list"
  cancel_after :: "nat option"

datatype event =
    Processed "byte list"
  | FrameSent "byte list"
  | ErrorSent error
  | ErrorChannelClosed
  | FrameChannelClosed
  | WorkerDone

definition exit_events :: "event list" where
  "exit_events = [ErrorChannelClosed, FrameChannelClosed, WorkerDone]"

fun Start_worker :: "iteration list \<Rightarrow> event list" where
  "Start_worker [] = []"
| "Start_worker (it # its) =
     (if ctx_done it then exit_events
      else
        (case read_err it of
           Some err \<Rightarrow> (if err \<noteq> EOF then [ErrorSent err] else []) @ exit_events
         | None \<Rightarrow>
             if length (read_bytes it) > 0 then
               Processed (read_bytes it) #
               (case process_result it of
                  Inl err \<Rightarrow> ErrorSent err # Start_worker its
                | Inr frames \<Rightarrow>
                    (let frameData = map (\<lambda>frameB64. fst (base64_DecodeString frameB64)) frames
                     in case cancel_after it of
                          None \<Rightarrow> map FrameSent frameData @ Start_worker its
                        | Some k \<Rightarrow>
                            if k < length frameData
                            then map FrameSent (take k frameData) @ exit_events
                            else map FrameSent frameData @ Start_worker its))
             else Start_worker its))"

section \<open>Properties of the frame demuxer\<close>

subsection \<open>\<open>bytes.Index\<close>\<close>

lemma bytes_Index_SomeD:
  "bytes_Index s sep = Some k \<Longrightarrow> k + length sep \<le> length s \<and> prefix sep (drop k s)"
proof (induction s arbitrary: k)
  case Nil
  then show ?case by (simp split: if_splits)
next
  case (Cons x xs)
  show ?case
  proof (cases "prefix sep (x # xs)")
    case True
    with Cons.prems show ?thesis by (auto dest: prefix_length_le)
  next
    case False
    with Cons.prems obtain k' where "bytes_Index xs sep = Some k'" "k = Suc k'" by auto
    with Cons.IH [of k'] show ?thesis by simp
  qed
qed

lemma bytes_Index_least:
  "bytes_Index s sep = Some k \<Longrightarrow> j < k \<Longrightarrow> \<not> prefix sep (drop j s)"
proof (induction s arbitrary: k j)
  case Nil
  then show ?case by (simp split: if_splits)
next
  case (Cons x xs)
  show ?case
  proof (cases "prefix sep (x # xs)")
    case True
    with Cons.prems show ?thesis by auto
  next
    case False
    with Cons.prems obtain k' where k': "bytes_Index xs sep = Some k'" "k = Suc k'" by auto
    show ?thesis
    proof (cases j)
      case 0
      with False show ?thesis by simp
    next
      case (Suc j')
      with Cons.prems k' have "j' < k'" by simp
      from Cons.IH [OF k'(1) this] Suc show ?thesis by simp
    qed
  qed
qed

lemma bytes_Index_None_iff:
  "sep \<noteq> [] \<Longrightarrow> bytes_Index s sep = None \<longleftrightarrow> (\<forall>j. \<not> prefix sep (drop j s))"
proof (induction s)
  case Nil
  then show ?case by simp
next
  case (Cons x xs)
  show ?case
  proof (cases "prefix sep (x # xs)")
    case True
    then have "prefix sep (drop 0 (x # xs))" by simp
    with True show ?thesis by (metis bytes_Index.simps(2) option.distinct(1))
  next
    case False
    have "(\<forall>j. \<not> prefix sep (drop j (x # xs))) \<longleftrightarrow> (\<forall>j. \<not> prefix sep (drop j xs))"
    proof
      assume h: "\<forall>j. \<not> prefix sep (drop j (x # xs))"
      show "\<forall>j. \<not> prefix sep (drop j xs)"
      proof
        fix j from h have "\<not> prefix sep (drop (Suc j) (x # xs))" by blast
        then show "\<not> prefix sep (drop j xs)" by simp
      qed
    next
      assume h: "\<forall>j. \<not> prefix sep (drop j xs)"
      show "\<forall>j. \<not> prefix sep (drop j (x # xs))"
      proof
        fix j show "\<not> prefix sep (drop j (x # xs))"
          using h False by (cases j) auto
      qed
    qed
    with False Cons show ?thesis by simp
  qed
qed

lemma next_frame_SomeD:
  assumes "next_frame data i = Some (a, b)"
  shows "i < length data" "i \<le> a" "a + 4 \<le> b" "b \<le> length data"
    "prefix jpegStart (drop a data)" "prefix jpegEnd (drop (b - 2) data)"
proof -
  from assms have i: "i < length data"
    by (simp add: next_frame_def split: if_splits)
  from assms i obtain s where s: "bytes_Index (drop i data) jpegStart = Some s"
    by (auto simp: next_frame_def split: option.splits)
  from assms i s obtain e where e: "bytes_Index (drop (s + i + 2) data) jpegEnd = Some e"
    by (auto simp: next_frame_def split: option.splits)
  from assms i s e have ab: "a = s + i" "b = e + (s + i + 2 + 2)"
    by (simp_all add: next_frame_def)
  from bytes_Index_SomeD [OF s] have s': "s + 2 \<le> length data - i" "prefix jpegStart (drop (s + i) data)"
    by (simp_all add: jpegStart_def)
  from bytes_Index_SomeD [OF e] have e': "e + 2 \<le> length data - (s + i + 2)"
    "prefix jpegEnd (drop (e + (s + i + 2)) data)"
    by (simp_all add: jpegEnd_def)
  show "i < length data" by (rule i)
  show "i \<le> a" using ab by simp
  show "a + 4 \<le> b" using ab by simp
  show "b \<le> length data" using ab s' e' by simp
  show "prefix jpegStart (drop a data)" using ab s' by simp
  show "prefix jpegEnd (drop (b - 2) data)" using ab e' by simp
qed

lemma splitJPEGFrames_loop_step:
  "splitJPEGFrames_loop data i frames =
     (case next_frame data i of
        None \<Rightarrow> frames
      | Some (a, b) \<Rightarrow> splitJPEGFrames_loop data b (frames @ [slice data a b]))"
  by (subst splitJPEGFrames_loop.simps) (simp add: next_frame_def split: option.splits)

lemma scan_positions_step:
  "scan_positions data i k ps =
     (case next_frame data i of
        None \<Rightarrow> ps
      | Some (a, b) \<Rightarrow>
          scan_positions data b (k + 1) (ps @ [\<lparr>fp_start = a, fp_end = b, fp_index = k\<rparr>]))"
  by (subst scan_positions.simps) (simp add: next_frame_def split: option.splits)

lemma splitJPEGFrames_loop_acc:
  "splitJPEGFrames_loop data i frames = frames @ splitJPEGFrames_loop data i []"
proof (induction "length data - i" arbitrary: i frames rule: less_induct)
  case less
  show ?case
  proof (cases "next_frame data i")
    case None
    then show ?thesis by (simp add: splitJPEGFrames_loop_step [of data i])
  next
    case (Some ab)
    obtain a b where ab: "ab = (a, b)" by (cases ab)
    from next_frame_SomeD [OF Some [unfolded ab]] have "length data - b < length data - i"
      by simp
    from less [OF this, of "frames @ [slice data a b]"] less [OF this, of "[slice data a b]"]
    show ?thesis using Some ab by (simp add: splitJPEGFrames_loop_step [of data i])
  qed
qed

lemma scan_positions_acc:
  "scan_positions data i k ps = ps @ scan_positions data i k []"
proof (induction "length data - i" arbitrary: i k ps rule: less_induct)
  case less
  show ?case
  proof (cases "next_frame data i")
    case None
    then show ?thesis by (simp add: scan_positions_step [of data i])
  next
    case (Some ab)
    obtain a b where ab: "ab = (a, b)" by (cases ab)
    from next_frame_SomeD [OF Some [unfolded ab]] have "length data - b < length data - i"
      by simp
    from less [OF this, of "k + 1" "ps @ [\<lparr>fp_start = a, fp_end = b, fp_index = k\<rparr>]"]
      less [OF this, of "k + 1" "[\<lparr>fp_start = a, fp_end = b, fp_index = k\<rparr>]"]
    show ?thesis using Some ab by (simp add: scan_positions_step [of data i])
  qed
qed

lemma splitJPEGFrames_loop_Nil:
  "splitJPEGFrames_loop data i [] =
     (case next_frame data i of
        None \<Rightarrow> []
      | Some (a, b) \<Rightarrow> slice data a b # splitJPEGFrames_loop data b [])"
  using splitJPEGFrames_loop_acc [of data _ "[_]"]
  by (subst splitJPEGFrames_loop_step) (simp split: option.splits)

lemma scan_positions_Nil:
  "scan_positions data i k [] =
     (case next_frame data i of
        None \<Rightarrow> []
      | Some (a, b) \<Rightarrow>
          \<lparr>fp_start = a, fp_end = b, fp_index = k\<rparr> # scan_positions data b (k + 1) [])"
  using scan_positions_acc [of data _ _ "[_]"]
  by (subst scan_positions_step) (simp split: option.splits)

lemma scan_positions_frames:
  "map (\<lambda>pos. slice data (fp_start pos) (fp_end pos)) (scan_positions data i k [])
     = splitJPEGFrames_loop data i []"
proof (induction "length data - i" arbitrary: i k rule: less_induct)
  case less
  show ?case
  proof (cases "next_frame data i")
    case None
    then show ?thesis
      by (simp add: scan_positions_Nil [of data i] splitJPEGFrames_loop_Nil [of data i])
  next
    case (Some ab)
    obtain a b where ab: "ab = (a, b)" by (cases ab)
    from next_frame_SomeD [OF Some [unfolded ab]] have "length data - b < length data - i"
      by simp
    from less [OF this, of "k + 1"] show ?thesis using Some ab
      by (simp add: scan_positions_Nil [of data i] splitJPEGFrames_loop_Nil [of data i])
  qed
qed


lemma length_copy_jobs [simp]: "length (copy_jobs data jobs frames) = length frames"
  by (induction jobs arbitrary: frames) simp_all





lemma scan_positions_bounds:
  "p \<in> set (scan_positions data i k []) \<Longrightarrow>
     i \<le> fp_start p \<and> fp_start p + 4 \<le> fp_end p \<and> fp_end p \<le> length data"
proof (induction "length data - i" arbitrary: i k rule: less_induct)
  case less
  show ?case
  proof (cases "next_frame data i")
    case None
    with less.prems show ?thesis
      by (simp add: scan_positions_Nil [of data i])
  next
    case (Some ab)
    obtain a b where ab: "ab = (a, b)" by (cases ab)
    note nf = next_frame_SomeD [OF Some [unfolded ab]]
    from nf have m: "length data - b < length data - i" by simp
    from less.prems Some ab
    consider "p = \<lparr>fp_start = a, fp_end = b, fp_index = k\<rparr>"
      | "p \<in> set (scan_positions data b (k + 1) [])"
      by (auto simp: scan_positions_Nil [of data i])
    then show ?thesis
    proof cases
      case 1
      with nf show ?thesis by simp
    next
      case 2
      from less.hyps [OF m 2] nf show ?thesis by simp
    qed
  qed
qed

lemma mem_marker_offsets:
  "m \<noteq> [] \<Longrightarrow> k \<in> set (marker_offsets data m) \<longleftrightarrow> prefix m (drop k data)"
  by (cases "k < length data") (auto simp: marker_offsets_def)

lemma next_frame_None_iff: "next_frame data 0 = None \<longleftrightarrow> \<not> has_complete_pair data"
proof
  assume none: "next_frame data 0 = None"
  show "\<not> has_complete_pair data"
  proof
    assume "has_complete_pair data"
    moreover have "jpegStart \<noteq> []" "jpegEnd \<noteq> []"
      by (simp_all add: jpegStart_def jpegEnd_def)
    ultimately obtain a b where a: "prefix jpegStart (drop a data)"
      and b: "prefix jpegEnd (drop b data)" and ab: "a + 2 \<le> b"
      by (auto simp: has_complete_pair_def mem_marker_offsets)
    from a have ne: "0 < length data" by (auto simp: jpegStart_def)
    from a have "bytes_Index data jpegStart \<noteq> None"
      by (simp add: bytes_Index_None_iff jpegStart_def) blast
    then obtain s where s: "bytes_Index data jpegStart = Some s" by blast
    have "s \<le> a"
    proof (rule ccontr)
      assume "\<not> s \<le> a"
      then have "a < s" by simp
      from bytes_Index_least [OF s this] a show False by simp
    qed
    with ab have "b - (s + 2) + (s + 2) = b" by simp
    then have "drop (b - (s + 2)) (drop (s + 2) data) = drop b data"
      by (simp only: drop_drop)
    with b have "prefix jpegEnd (drop (b - (s + 2)) (drop (s + 2) data))" by simp
    then have "bytes_Index (drop (s + 2) data) jpegEnd \<noteq> None"
      by (simp only: bytes_Index_None_iff [of jpegEnd, simplified jpegEnd_def, simplified, folded jpegEnd_def]) blast
    with s ne none show False
      by (auto simp: next_frame_def split: option.splits)
  qed
next
  assume no: "\<not> has_complete_pair data"
  show "next_frame data 0 = None"
  proof (rule ccontr)
    assume "next_frame data 0 \<noteq> None"
    then obtain a b where "next_frame data 0 = Some (a, b)" by auto
    note nf = next_frame_SomeD [OF this]
    from nf have le: "a + 2 \<le> b - 2" by simp
    have "jpegStart \<noteq> []" "jpegEnd \<noteq> []" by (simp_all add: jpegStart_def jpegEnd_def)
    with nf(5,6) have "a \<in> set (marker_offsets data jpegStart)"
      "b - 2 \<in> set (marker_offsets data jpegEnd)"
      by (simp_all add: mem_marker_offsets)
    with le have "has_complete_pair data"
      unfolding has_complete_pair_def by blast
    with no show False ..
  qed
qed







lemma splitJPEGFrames_loop_markers:
  "fr \<in> set (splitJPEGFrames_loop data i []) \<Longrightarrow>
     prefix jpegStart fr \<and> suffix jpegEnd fr"
proof (induction "length data - i" arbitrary: i rule: less_induct)
  case less
  show ?case
  proof (cases "next_frame data i")
    case None
    with less.prems show ?thesis
      by (simp add: splitJPEGFrames_loop_Nil [of data i])
  next
    case (Some ab)
    obtain a b where ab: "ab = (a, b)" by (cases ab)
    note nf = next_frame_SomeD [OF Some [unfolded ab]]
    from nf have m: "length data - b < length data - i" by simp
    from less.prems Some ab
    consider "fr = slice data a b" | "fr \<in> set (splitJPEGFrames_loop data b [])"
      by (auto simp: splitJPEGFrames_loop_Nil [of data i])
    then show ?thesis
    proof cases
      case 1
      from nf(5) obtain r where r: "drop a data = jpegStart @ r" by (auto simp: prefix_def)
      from nf(6) obtain r' where r': "drop (b - 2) data = jpegEnd @ r'" by (auto simp: prefix_def)
      from nf have ba: "b - a = (b - a - 2) + 2" "a + (b - a - 2) = b - 2" by simp_all
      have "take (b - a) (drop a data) =
              take (b - a - 2) (drop a data) @ take 2 (drop (b - a - 2) (drop a data))"
        by (subst ba(1)) (rule take_add)
      also have "drop (b - a - 2) (drop a data) = drop (b - 2) data"
        by (simp only: drop_drop add.commute [of "b - a - 2" a] ba(2))
      finally have "slice data a b = take (b - a - 2) (drop a data) @ jpegEnd"
        by (simp add: slice_def r' jpegEnd_def)
      then have "suffix jpegEnd fr" using 1 by (simp add: suffix_def)
      moreover from nf have n: "b - a = Suc (Suc (b - a - 2))" by simp
      have "prefix jpegStart (slice data a b)"
        unfolding slice_def r jpegStart_def by (subst n) simp
      ultimately show ?thesis using 1 by simp
    next
      case 2
      from less.hyps [OF m 2] show ?thesis .
    qed
  qed
qed

text \<open>
  On any input, every frame that \<open>splitJPEGFrames\<close> returns starts with the SOI marker
  and ends with the EOI marker.
\<close>

lemma splitJPEGFrames_markers:
  assumes "splitJPEGFrames data = Inr frames" and "frame \<in> set frames"
  shows "take 2 frame = [0xFF, 0xD8] \<and> drop (length frame - 2) frame = [0xFF, 0xD9]"
proof -
  from assms have "frame \<in> set (splitJPEGFrames_loop data 0 [])"
    by (auto simp: splitJPEGFrames_def Let_def split: if_splits)
  from splitJPEGFrames_loop_markers [OF this]
  have p: "prefix jpegStart frame" and s: "suffix jpegEnd frame" by simp_all
  from p have "take 2 frame = [0xFF, 0xD8]"
    by (auto simp: prefix_def jpegStart_def)
  moreover from s have "drop (length frame - 2) frame = [0xFF, 0xD9]"
    by (auto simp: suffix_def jpegEnd_def)
  ultimately show ?thesis by simp
qed

text \<open>
  Outside the configurations of the data model (\<open>MaxWorkers \<ge> 1\<close>, \<open>BufferSize \<ge> 0\<close>) and
  past the capacity the runtime grants, the concurrent variant does not return the
  frames: without a worker the slots stay \<open>nil\<close> or the send blocks, and a negative
  channel size or one past the limit panics.
\<close>

lemma concurrent_outside_configuration:
  "splitJPEGFramesConcurrent (2 ^ 20)
     \<lparr>vp_FPS = 1, MaxWorkers = 0, BufferSize = 100, EnableHWAccel = True, UseStreamMode = False\<rparr>
     sched [0xFF, 0xD8, 0xFF, 0xD9] = Returns (Inr [[]])"
  "splitJPEGFramesConcurrent (2 ^ 20)
     \<lparr>vp_FPS = 1, MaxWorkers = 0, BufferSize = 0, EnableHWAccel = True, UseStreamMode = False\<rparr>
     sched [0xFF, 0xD8, 0xFF, 0xD9] = Blocks"
  "splitJPEGFramesConcurrent (2 ^ 20)
     \<lparr>vp_FPS = 1, MaxWorkers = 4, BufferSize = - 1, EnableHWAccel = True, UseStreamMode = False\<rparr>
     sched [0xFF, 0xD8, 0xFF, 0xD9] = Panics"
  "splitJPEGFramesConcurrent (2 ^ 20)
     \<lparr>vp_FPS = 1, MaxWorkers = 4, BufferSize = 2 ^ 62, EnableHWAccel = True, UseStreamMode = False\<rparr>
     sched [0xFF, 0xD8, 0xFF, 0xD9] = Panics"
  by (simp_all add: splitJPEGFramesConcurrent_def scan_positions.simps jpegStart_def jpegEnd_def)

text \<open>
  The scan ends a frame at the first EOI marker behind its SOI marker: an image whose
  body holds an EOI marker of its own (an embedded thumbnail, say) is cut there. This is
  why \<open>body_ok\<close> belongs to the well-formed images of claim C1.
\<close>

lemma embedded_EOI_ends_frame:
  "splitJPEGFrames (jpeg_image [0x01, 0xFF, 0xD9, 0x02]) = Inr [[0xFF, 0xD8, 0x01, 0xFF, 0xD9]]"
  by (simp add: splitJPEGFrames_def splitJPEGFrames_loop.simps jpeg_image_def jpegStart_def
      jpegEnd_def slice_def)

section \<open>The claims about the frame demuxer\<close>





text \<open>
  The sequential scan finds no frame exactly when the buffer has no complete SOI/EOI
  pair.
\<close>

lemma splitJPEGFrames_loop_empty_iff:
  "splitJPEGFrames_loop data 0 [] = [] \<longleftrightarrow> \<not> has_complete_pair data"
  by (simp add: splitJPEGFrames_loop_Nil [of data 0] next_frame_None_iff [symmetric]
      split: option.splits)

text \<open>
  Claim C4. The demuxer (each of its three functions) returns the error "no valid JPEG
  frames found" if and only if the buffer contains no complete SOI/EOI pair, that is no
  SOI marker with an EOI marker behind it; and a successful result is never an empty
  list of frames.
\<close>

theorem no_frames_found_iff_no_complete_pair:
  "(splitJPEGFrames data = Inl NoFramesFound \<longleftrightarrow> \<not> has_complete_pair data) \<and>
   (sp_splitJPEGFrames data = Inl NoFramesFound \<longleftrightarrow> \<not> has_complete_pair data) \<and>
   (splitJPEGFramesConcurrent maxChanCap vp sched data = Returns (Inl NoFramesFound)
      \<longleftrightarrow> \<not> has_complete_pair data) \<and>
   splitJPEGFrames data \<noteq> Inr [] \<and>
   sp_splitJPEGFrames data \<noteq> Inr [] \<and>
   splitJPEGFramesConcurrent maxChanCap vp sched data \<noteq> Returns (Inr [])"
proof -
  let ?ps = "scan_positions data 0 0 []"
  have "length (splitJPEGFrames_loop data 0 []) = length ?ps"
    using scan_positions_frames [of data 0 0] by (metis length_map)
  then have ps: "?ps = [] \<longleftrightarrow> \<not> has_complete_pair data"
    using splitJPEGFrames_loop_empty_iff [of data] by (metis length_0_conv)
  have len: "length (copy_jobs data (sched ?ps) (replicate (length ?ps) [])) = length ?ps"
    by simp
  have conc1: "splitJPEGFramesConcurrent maxChanCap vp sched data = Returns (Inl NoFramesFound)
      \<longleftrightarrow> \<not> has_complete_pair data"
    using ps by (simp add: splitJPEGFramesConcurrent_def Let_def)
  have conc2: "splitJPEGFramesConcurrent maxChanCap vp sched data \<noteq> Returns (Inr [])"
    using len by (auto simp: splitJPEGFramesConcurrent_def Let_def simp del: length_copy_jobs)
  show ?thesis
    using conc1 conc2 splitJPEGFrames_loop_empty_iff [of data]
    by (simp add: splitJPEGFrames_def sp_splitJPEGFrames_def Let_def)
qed

text \<open>
  The theorem on an SOI without an EOI, on a buffer with one image, and on an EOI that
  comes before the only SOI.
\<close>

theorem no_frames_found_iff_no_complete_pair_witness:
  "\<not> has_complete_pair [0xFF, 0xD8, 0x00, 0xFF] \<and>
   splitJPEGFrames [0xFF, 0xD8, 0x00, 0xFF] = Inl NoFramesFound \<and>
   has_complete_pair [0x07, 0xFF, 0xD8, 0xFF, 0xD9] \<and>
   splitJPEGFrames [0x07, 0xFF, 0xD8, 0xFF, 0xD9] \<noteq> Inl NoFramesFound \<and>
   \<not> has_complete_pair [0xFF, 0xD9, 0xFF, 0xD8] \<and>
   sp_splitJPEGFrames [0xFF, 0xD9, 0xFF, 0xD8] = Inl NoFramesFound"
proof -
  have a: "\<not> has_complete_pair [0xFF, 0xD8, 0x00, 0xFF]"
    by (simp add: has_complete_pair_def marker_offsets_def jpegStart_def jpegEnd_def upt_rec)
  have b: "has_complete_pair [0x07, 0xFF, 0xD8, 0xFF, 0xD9]"
    by (simp add: has_complete_pair_def marker_offsets_def jpegStart_def jpegEnd_def upt_rec)
  have c: "\<not> has_complete_pair [0xFF, 0xD9, 0xFF, 0xD8]"
    by (simp add: has_complete_pair_def marker_offsets_def jpegStart_def jpegEnd_def upt_rec)
  from a b c show ?thesis
    using no_frames_found_iff_no_complete_pair [of "[0xFF, 0xD8, 0x00, 0xFF]"]
      no_frames_found_iff_no_complete_pair [of "[0x07, 0xFF, 0xD8, 0xFF, 0xD9]"]
      no_frames_found_iff_no_complete_pair [of "[0xFF, 0xD9, 0xFF, 0xD8]"]
    by blast
qed

text \<open>
  Claim C8, as the specification states it: every position of the boundary scan has
  \<open>end > start > 0\<close>. A buffer that begins with an image, as the output of the decoder
  does, gives a position with \<open>start = 0\<close>.
\<close>

theorem frame_positions_start_may_be_zero:
  "scan_positions [0xFF, 0xD8, 0xFF, 0xD9] 0 0 [] = [\<lparr>fp_start = 0, fp_end = 4, fp_index = 0\<rparr>] \<and>
   \<not> (fp_start \<lparr>fp_start = 0, fp_end = 4, fp_index = 0\<rparr>
          < fp_end \<lparr>fp_start = 0, fp_end = 4, fp_index = 0\<rparr> \<and>
        0 < fp_start \<lparr>fp_start = 0, fp_end = 4, fp_index = 0\<rparr>)"
  by (simp add: scan_positions.simps jpegStart_def jpegEnd_def)

text \<open>
  Claim C8, amended: every position of the boundary scan of
  \<open>splitJPEGFramesConcurrent\<close> satisfies \<open>end > start \<ge> 0\<close>; more precisely
  \<open>start + 4 \<le> end \<le> len(data)\<close>.
\<close>

theorem frame_positions_ordered:
  assumes "pos \<in> set (scan_positions data 0 0 [])"
  shows "0 \<le> fp_start pos \<and> fp_start pos < fp_end pos \<and>
         fp_start pos + 4 \<le> fp_end pos \<and> fp_end pos \<le> length data"
  using scan_positions_bounds [OF assms] by simp

text \<open>
  The amended theorem at the position of the frame in a buffer with filler on both
  sides.
\<close>

theorem frame_positions_ordered_witness:
  "\<lparr>fp_start = 1, fp_end = 6, fp_index = 0\<rparr>
     \<in> set (scan_positions [0x00, 0xFF, 0xD8, 0x00, 0xFF, 0xD9, 0x00] 0 0 []) \<and>
   fp_start \<lparr>fp_start = 1, fp_end = 6, fp_index = 0\<rparr>
     < fp_end \<lparr>fp_start = 1, fp_end = 6, fp_index = 0\<rparr> \<and>
   fp_end \<lparr>fp_start = 1, fp_end = 6, fp_index = 0\<rparr>
     \<le> length [0x00, 0xFF, 0xD8, 0x00, 0xFF, 0xD9, 0x00 :: byte]"
proof -
  have m: "\<lparr>fp_start = 1, fp_end = 6, fp_index = 0\<rparr>
     \<in> set (scan_positions [0x00, 0xFF, 0xD8, 0x00, 0xFF, 0xD9, 0x00] 0 0 [])"
    by (simp add: scan_positions.simps jpegStart_def jpegEnd_def)
  from frame_positions_ordered [OF m] m show ?thesis by simp
qed

section \<open>Quality and resolution\<close>

text \<open>
  The quality scale is evaluated for every stored quality from 1 to 100, ten at a
  time, and compared with \<open>31 - \<lfloor>29 (q - 1) / 99\<rfloor>\<close>.
\<close>

lemmas qscale_eval =
  qscale_def go_sub_def wrap64_def float64_to_int_def float64_mul_def float64_div_def
  float64_of_int_def float64_round_def binary_exponent_def round_to_even_def Let_def
  compute_bitlen

lemma upto_chunk_1: "[1..10] = [1, 2, 3, 4, 5, 6, 7, 8, 9, 10]"
  by (simp add: upto_rec1)

lemma qscale_table_1:
  "map qscale [1..10] = map (\<lambda>q. 31 - (29 * (q - 1)) div 99) [1..10]"
  unfolding upto_chunk_1 by (simp add: qscale_eval)

lemma upto_chunk_2: "[11..20] = [11, 12, 13, 14, 15, 16, 17, 18, 19, 20]"
  by (simp add: upto_rec1)

lemma qscale_table_2:
  "map qscale [11..20] = map (\<lambda>q. 31 - (29 * (q - 1)) div 99) [11..20]"
  unfolding upto_chunk_2 by (simp add: qscale_eval)

lemma upto_chunk_3: "[21..30] = [21, 22, 23, 24, 25, 26, 27, 28, 29, 30]"
  by (simp add: upto_rec1)

lemma qscale_table_3:
  "map qscale [21..30] = map (\<lambda>q. 31 - (29 * (q - 1)) div 99) [21..30]"
  unfolding upto_chunk_3 by (simp add: qscale_eval)

lemma upto_chunk_4: "[31..40] = [31, 32, 33, 34, 35, 36, 37, 38, 39, 40]"
  by (simp add: upto_rec1)

lemma qscale_table_4:
  "map qscale [31..40] = map (\<lambda>q. 31 - (29 * (q - 1)) div 99) [31..40]"
  unfolding upto_chunk_4 by (simp add: qscale_eval)

lemma upto_chunk_5: "[41..50] = [41, 42, 43, 44, 45, 46, 47, 48, 49, 50]"
  by (simp add: upto_rec1)

lemma qscale_table_5:
  "map qscale [41..50] = map (\<lambda>q. 31 - (29 * (q - 1)) div 99) [41..50]"
  unfolding upto_chunk_5 by (simp add: qscale_eval)

lemma upto_chunk_6: "[51..60] = [51, 52, 53, 54, 55, 56, 57, 58, 59, 60]"
  by (simp add: upto_rec1)

lemma qscale_table_6:
  "map qscale [51..60] = map (\<lambda>q. 31 - (29 * (q - 1)) div 99) [51..60]"
  unfolding upto_chunk_6 by (simp add: qscale_eval)

lemma upto_chunk_7: "[61..70] = [61, 62, 63, 64, 65, 66, 67, 68, 69, 70]"
  by (simp add: upto_rec1)

lemma qscale_table_7:
  "map qscale [61..70] = map (\<lambda>q. 31 - (29 * (q - 1)) div 99) [61..70]"
  unfolding upto_chunk_7 by (simp add: qscale_eval)

lemma upto_chunk_8: "[71..80] = [71, 72, 73, 74, 75, 76, 77, 78, 79, 80]"
  by (simp add: upto_rec1)

lemma qscale_table_8:
  "map qscale [71..80] = map (\<lambda>q. 31 - (29 * (q - 1)) div 99) [71..80]"
  unfolding upto_chunk_8 by (simp add: qscale_eval)

lemma upto_chunk_9: "[81..90] = [81, 82, 83, 84, 85, 86, 87, 88, 89, 90]"
  by (simp add: upto_rec1)

lemma qscale_table_9:
  "map qscale [81..90] = map (\<lambda>q. 31 - (29 * (q - 1)) div 99) [81..90]"
  unfolding upto_chunk_9 by (simp add: qscale_eval)

lemma upto_chunk_10: "[91..100] = [91, 92, 93, 94, 95, 96, 97, 98, 99, 100]"
  by (simp add: upto_rec1)

lemma qscale_table_10:
  "map qscale [91..100] = map (\<lambda>q. 31 - (29 * (q - 1)) div 99) [91..100]"
  unfolding upto_chunk_10 by (simp add: qscale_eval)

lemma qscale_closed_form:
  assumes "1 \<le> q" and "q \<le> 100"
  shows "qscale q = 31 - (29 * (q - 1)) div 99"
proof -
  note tabs =
    qscale_table_1 [unfolded map_eq_conv]
    qscale_table_2 [unfolded map_eq_conv]
    qscale_table_3 [unfolded map_eq_conv]
    qscale_table_4 [unfolded map_eq_conv]
    qscale_table_5 [unfolded map_eq_conv]
    qscale_table_6 [unfolded map_eq_conv]
    qscale_table_7 [unfolded map_eq_conv]
    qscale_table_8 [unfolded map_eq_conv]
    qscale_table_9 [unfolded map_eq_conv]
    qscale_table_10 [unfolded map_eq_conv]
  from assms have "q \<in> set [1..10] \<or>
      q \<in> set [11..20] \<or>
      q \<in> set [21..30] \<or>
      q \<in> set [31..40] \<or>
      q \<in> set [41..50] \<or>
      q \<in> set [51..60] \<or>
      q \<in> set [61..70] \<or>
      q \<in> set [71..80] \<or>
      q \<in> set [81..90] \<or>
      q \<in> set [91..100]"
    by (simp only: set_upto atLeastAtMost_iff) arith
  with tabs show ?thesis by blast
qed

lemma qscale_antimono:
  assumes "1 \<le> q" and "q \<le> q'" and "q' \<le> 100"
  shows "qscale q' \<le> qscale q"
proof -
  have "(29 * (q - 1)) div 99 \<le> (29 * (q' - 1)) div 99"
    using assms by (intro zdiv_mono1) simp_all
  then show ?thesis
    using assms by (simp add: qscale_closed_form)
qed

lemma qscale_ceiling:
  assumes "1 \<le> q" and "q \<le> 100"
  shows "qscale q = \<lceil>31 - (of_int q - 1) / 99 * 29 :: real\<rceil>"
proof -
  have "(of_int q - 1) / 99 * 29 = (of_int (29 * (q - 1)) :: real) / of_int 99"
    by simp
  then have "\<lfloor>(of_int q - 1) / 99 * 29 :: real\<rfloor> = (29 * (q - 1)) div 99"
    by (simp only: floor_divide_of_int_eq)
  moreover have "\<lceil>31 - x\<rceil> = 31 - \<lfloor>x\<rfloor>" for x :: real
    by (simp add: ceiling_def)
  ultimately show ?thesis
    using qscale_closed_form [OF assms] by simp
qed

lemma WithQuality_clamps:
  "Quality (WithQuality quality sp) = max 1 (min 100 quality)"
  by (simp add: WithQuality_def Let_def)

text \<open>
  Claim C5, as the specification states it: for a stored quality \<open>q\<close> the encoder
  gets \<open>clamp(round(31 - (q - 1)/99 * 29), 2, 31)\<close>. At \<open>q = 3\<close> the formula gives
  \<open>round(30.41...) = 30\<close>, the code \<open>31 - int(0.58...) = 31\<close>.
\<close>

theorem qscale_rounding_counterexample:
  "Quality (WithQuality 3 NewStreamProcessor) = 3 \<and>
   qscale (Quality (WithQuality 3 NewStreamProcessor)) = 31 \<and>
   spec_qscale (Quality (WithQuality 3 NewStreamProcessor)) = 30 \<and>
   qscale (Quality (WithQuality 3 NewStreamProcessor))
     \<noteq> spec_qscale (Quality (WithQuality 3 NewStreamProcessor))"
  by (simp add: WithQuality_def NewStreamProcessor_def spec_qscale_def round_def qscale_eval)

text \<open>
  Claim C5, amended. \<open>WithQuality\<close> stores \<open>max 1 (min 100 quality)\<close>. For a stored
  quality \<open>q\<close> in \<open>[1, 100]\<close> the encoder gets
  \<open>clamp(31 - trunc((q - 1)/99 * 29), 2, 31)\<close>, which is \<open>31 - \<lfloor>29 (q - 1) / 99\<rfloor>\<close>,
  the ceiling (not the rounding) of \<open>31 - (q - 1)/99 * 29\<close>; it lies in \<open>[2, 31]\<close>, it is
  31 at \<open>q = 1\<close> and 2 at \<open>q = 100\<close>, and it does not increase when \<open>q\<close> does.
\<close>

theorem quality_clamp_and_qscale:
  "Quality (WithQuality quality sp) = max 1 (min 100 quality) \<and>
   (1 \<le> Quality sp \<and> Quality sp \<le> 100 \<longrightarrow>
      qscale (Quality sp) = max 2 (min 31 (31 - \<lfloor>(of_int (Quality sp) - 1) / 99 * 29 :: real\<rfloor>)) \<and>
      qscale (Quality sp) = 31 - (29 * (Quality sp - 1)) div 99 \<and>
      qscale (Quality sp) = \<lceil>31 - (of_int (Quality sp) - 1) / 99 * 29 :: real\<rceil> \<and>
      2 \<le> qscale (Quality sp) \<and> qscale (Quality sp) \<le> 31) \<and>
   (Quality sp = 1 \<longrightarrow> qscale (Quality sp) = 31) \<and>
   (Quality sp = 100 \<longrightarrow> qscale (Quality sp) = 2) \<and>
   (1 \<le> Quality sp \<and> Quality sp \<le> Quality sp' \<and> Quality sp' \<le> 100 \<longrightarrow>
      qscale (Quality sp') \<le> qscale (Quality sp))"
proof -
  have range: "2 \<le> 31 - (29 * (q - 1)) div 99 \<and> 31 - (29 * (q - 1)) div 99 \<le> 31"
    if "1 \<le> q" "q \<le> 100" for q :: int
  proof -
    have "0 \<le> (29 * (q - 1)) div 99"
      using that by (simp add: pos_imp_zdiv_nonneg_iff)
    moreover have "(29 * (q - 1)) div 99 \<le> (29 * 99) div 99"
      using that by (intro zdiv_mono1) simp_all
    ultimately show ?thesis by simp
  qed
  have fl: "\<lfloor>(of_int q - 1) / 99 * 29 :: real\<rfloor> = (29 * (q - 1)) div 99" for q :: int
  proof -
    have "(of_int q - 1) / 99 * 29 = (of_int (29 * (q - 1)) :: real) / of_int 99"
      by simp
    then show ?thesis by (simp only: floor_divide_of_int_eq)
  qed
  have main: "qscale q = max 2 (min 31 (31 - \<lfloor>(of_int q - 1) / 99 * 29 :: real\<rfloor>)) \<and>
      qscale q = 31 - (29 * (q - 1)) div 99 \<and>
      qscale q = \<lceil>31 - (of_int q - 1) / 99 * 29 :: real\<rceil> \<and>
      2 \<le> qscale q \<and> qscale q \<le> 31"
    if "1 \<le> q" "q \<le> 100" for q :: int
  proof -
    note cf = qscale_closed_form [OF that] and r = range [OF that]
    have "qscale q = max 2 (min 31 (31 - \<lfloor>(of_int q - 1) / 99 * 29 :: real\<rfloor>))"
      unfolding fl using cf r by linarith
    moreover have "2 \<le> qscale q \<and> qscale q \<le> 31"
      using cf r by linarith
    ultimately show ?thesis
      using cf qscale_ceiling [OF that] by blast
  qed
  have one: "qscale 1 = 31" using qscale_closed_form [of 1] by simp
  have hundred: "qscale 100 = 2" using qscale_closed_form [of 100] by simp
  have one': "Quality sp = 1 \<longrightarrow> qscale (Quality sp) = 31"
    using one by simp
  have hundred': "Quality sp = 100 \<longrightarrow> qscale (Quality sp) = 2"
    using hundred by simp
  have mono: "1 \<le> Quality sp \<and> Quality sp \<le> Quality sp' \<and> Quality sp' \<le> 100 \<longrightarrow>
      qscale (Quality sp') \<le> qscale (Quality sp)"
    using qscale_antimono by blast
  have m: "1 \<le> Quality sp \<and> Quality sp \<le> 100 \<longrightarrow>
      qscale (Quality sp) = max 2 (min 31 (31 - \<lfloor>(of_int (Quality sp) - 1) / 99 * 29 :: real\<rfloor>)) \<and>
      qscale (Quality sp) = 31 - (29 * (Quality sp - 1)) div 99 \<and>
      qscale (Quality sp) = \<lceil>31 - (of_int (Quality sp) - 1) / 99 * 29 :: real\<rceil> \<and>
      2 \<le> qscale (Quality sp) \<and> qscale (Quality sp) \<le> 31"
    using main [of "Quality sp"] by blast
  from WithQuality_clamps [of quality sp] m one' hundred' mono show ?thesis
    by (intro conjI)
qed

text \<open>
  The amended theorem at the processors made by \<open>WithQuality 0\<close>, \<open>WithQuality 90\<close> and
  \<open>WithQuality 150\<close>.
\<close>

theorem quality_clamp_and_qscale_witness:
  "Quality (WithQuality 0 NewStreamProcessor) = 1 \<and>
   Quality (WithQuality 150 NewStreamProcessor) = 100 \<and>
   Quality (WithQuality 90 NewStreamProcessor) = 90 \<and>
   1 \<le> Quality (WithQuality 90 NewStreamProcessor) \<and>
   Quality (WithQuality 90 NewStreamProcessor) \<le> Quality (WithQuality 150 NewStreamProcessor) \<and>
   Quality (WithQuality 150 NewStreamProcessor) \<le> 100 \<and>
   qscale (Quality (WithQuality 90 NewStreamProcessor)) = 5 \<and>
   qscale (Quality (WithQuality 0 NewStreamProcessor)) = 31 \<and>
   qscale (Quality (WithQuality 150 NewStreamProcessor)) = 2 \<and>
   qscale (Quality (WithQuality 150 NewStreamProcessor))
     \<le> qscale (Quality (WithQuality 90 NewStreamProcessor))"
proof -
  have q: "Quality (WithQuality 0 NewStreamProcessor) = 1"
    "Quality (WithQuality 150 NewStreamProcessor) = 100"
    "Quality (WithQuality 90 NewStreamProcessor) = 90"
    by (simp_all add: WithQuality_def)
  show ?thesis
    using quality_clamp_and_qscale [of 0 "WithQuality 90 NewStreamProcessor"
        "WithQuality 150 NewStreamProcessor"]
      quality_clamp_and_qscale [of 0 "WithQuality 0 NewStreamProcessor" NewStreamProcessor]
      quality_clamp_and_qscale [of 0 "WithQuality 150 NewStreamProcessor" NewStreamProcessor]
    by (simp add: q)
qed

text \<open>
  \<open>WithResolution\<close>: inside the range of \<open>int\<close> the rounding expression of the code
  is \<open>((w + 13) div 28) * 28\<close>, the multiple of 28 nearest to \<open>w\<close>.
\<close>

lemma wrap64_id: "- (2 ^ 63) \<le> x \<Longrightarrow> x < 2 ^ 63 \<Longrightarrow> wrap64 x = x"
  by (simp add: wrap64_def)

lemma nearest_multiple_of_28:
  fixes w :: int
  shows "((w + 13) div 28) * 28 =
           (if w mod 28 \<le> 14 then w - w mod 28 else w + (28 - w mod 28))"
proof -
  have w: "w = 28 * (w div 28) + w mod 28" by simp
  have m: "0 \<le> w mod 28" "w mod 28 < 28" by simp_all
  show ?thesis
  proof (cases "w mod 28 \<le> 14")
    case True
    have "(w + 13) div 28 = w div 28"
    proof (rule int_div_pos_eq)
      show "w + 13 = 28 * (w div 28) + (w mod 28 + 13)" using w by linarith
      show "0 \<le> w mod 28 + 13" using m by linarith
      show "w mod 28 + 13 < 28" using True by linarith
    qed
    then have "((w + 13) div 28) * 28 = 28 * (w div 28)" by simp
    also have "\<dots> = w - w mod 28" using w by linarith
    finally show ?thesis using True by simp
  next
    case False
    have "(w + 13) div 28 = w div 28 + 1"
    proof (rule int_div_pos_eq)
      have "28 * (w div 28 + 1) = 28 * (w div 28) + 28" by simp
      with w show "w + 13 = 28 * (w div 28 + 1) + (w mod 28 - 15)" by linarith
      show "0 \<le> w mod 28 - 15" using False by linarith
      show "w mod 28 - 15 < 28" using m by linarith
    qed
    then have "((w + 13) div 28) * 28 = 28 * (w div 28) + 28" by simp
    also have "\<dots> = w + (28 - w mod 28)" using w by linarith
    finally show ?thesis using False by simp
  qed
qed

lemma nearest_multiple_of_28_props:
  fixes x :: int
  defines "r \<equiv> (if x mod 28 \<le> 14 then x - x mod 28 else x + (28 - x mod 28))"
  shows "28 dvd r" and "\<bar>r - x\<bar> \<le> 14" and "28 dvd x \<Longrightarrow> r = x"
proof -
  have m: "0 \<le> x mod 28" "x mod 28 < 28" by simp_all
  have "r = ((x + 13) div 28) * 28"
    unfolding r_def by (rule nearest_multiple_of_28 [symmetric])
  then show "28 dvd r" by simp
  show "\<bar>r - x\<bar> \<le> 14"
    unfolding r_def using m by (cases "x mod 28 \<le> 14") simp_all
  show "r = x" if "28 dvd x"
  proof -
    from that have "x mod 28 = 0" by simp
    then show ?thesis by (simp add: r_def)
  qed
qed

lemma go_round_28:
  assumes "0 < w" and "w < 2 ^ 63 - 13"
  shows "go_mul (go_div (go_add w 13) 28) 28 = ((w + 13) div 28) * 28"
    and "go_mod w 28 = w mod 28"
proof -
  from assms have a: "go_add w 13 = w + 13"
    by (simp add: go_add_def wrap64_id)
  have s: "(w + 13) sdiv 28 = (w + 13) div 28"
    using assms by (simp add: signed_divide_int_def)
  have m: "0 \<le> x mod 28" "x = 28 * (x div 28) + x mod 28" for x :: int
    by simp_all
  have nn: "0 \<le> (w + 13) div 28"
    using assms(1) by (simp add: pos_imp_zdiv_nonneg_iff)
  then have le: "(w + 13) div 28 \<le> w + 13" "((w + 13) div 28) * 28 \<le> w + 13"
    using m [of "w + 13"] by linarith+
  from assms nn le have d: "go_div (w + 13) 28 = (w + 13) div 28"
    by (simp add: go_div_def s wrap64_id)
  from assms nn le show "go_mul (go_div (go_add w 13) 28) 28 = ((w + 13) div 28) * 28"
    by (simp add: a d go_mul_def wrap64_id)
  show "go_mod w 28 = w mod 28"
    using assms by (simp add: go_mod_def signed_modulo_int_def)
qed

text \<open>
  Claim C6, as the specification states it: each target dimension is the smallest
  multiple of 28 that is not below the request. \<open>WithResolution(30, 30)\<close> stores 28.
\<close>

theorem WithResolution_rounds_down_counterexample:
  "TargetWidth (WithResolution 30 30 NewStreamProcessor) = 28 \<and>
   TargetHeight (WithResolution 30 30 NewStreamProcessor) = 28 \<and>
   \<not> (30 \<le> TargetWidth (WithResolution 30 30 NewStreamProcessor))"
  by (simp add: WithResolution_def NewStreamProcessor_def go_mod_def go_mul_def go_div_def
      go_add_def wrap64_def signed_modulo_int_def signed_divide_int_def)

text \<open>
  Claim C6, amended. For positive arguments (below \<open>2^63 - 13\<close>, so that
  \<open>width + 13\<close> does not overflow) \<open>WithResolution\<close> sets each target dimension to the
  multiple of 28 nearest to the request, the code's "round to nearest multiple of 28":
  a remainder up to 14 is rounded down, a remainder from 15 on is rounded up. The
  result is a multiple of 28 at most 14 away from the request, and a request that is a
  multiple of 28 is left unchanged.
\<close>

theorem WithResolution_nearest_multiple:
  assumes "0 < width" and "width < 2 ^ 63 - 13" and "0 < height" and "height < 2 ^ 63 - 13"
  shows
    "TargetWidth (WithResolution width height sp) =
       (if width mod 28 \<le> 14 then width - width mod 28 else width + (28 - width mod 28)) \<and>
     TargetHeight (WithResolution width height sp) =
       (if height mod 28 \<le> 14 then height - height mod 28 else height + (28 - height mod 28)) \<and>
     28 dvd TargetWidth (WithResolution width height sp) \<and>
     28 dvd TargetHeight (WithResolution width height sp) \<and>
     \<bar>TargetWidth (WithResolution width height sp) - width\<bar> \<le> 14 \<and>
     \<bar>TargetHeight (WithResolution width height sp) - height\<bar> \<le> 14 \<and>
     (28 dvd width \<longrightarrow> TargetWidth (WithResolution width height sp) = width) \<and>
     (28 dvd height \<longrightarrow> TargetHeight (WithResolution width height sp) = height)"
proof -
  let ?r = "\<lambda>w :: int. if w mod 28 \<le> 14 then w - w mod 28 else w + (28 - w mod 28)"
  have w: "TargetWidth (WithResolution width height sp) = ?r width"
    using go_round_28 [OF assms(1,2)] go_round_28 [OF assms(3,4)]
      nearest_multiple_of_28 [of width]
    by (simp add: WithResolution_def)
  have h: "TargetHeight (WithResolution width height sp) = ?r height"
    using go_round_28 [OF assms(1,2)] go_round_28 [OF assms(3,4)]
      nearest_multiple_of_28 [of height]
    by (simp add: WithResolution_def)
  note r = nearest_multiple_of_28_props
  show ?thesis
    unfolding w h using r [of width] r [of height] by simp
qed

text \<open>
  The amended theorem at \<open>WithResolution(100, 50)\<close>, \<open>WithResolution(1120, 1120)\<close> and
  \<open>WithResolution(30, 42)\<close>.
\<close>

theorem WithResolution_nearest_multiple_witness:
  "(0::int) < 100 \<and> (100::int) < 2 ^ 63 - 13 \<and> (0::int) < 50 \<and> (50::int) < 2 ^ 63 - 13 \<and>
   TargetWidth (WithResolution 100 50 NewStreamProcessor) = 112 \<and>
   TargetHeight (WithResolution 100 50 NewStreamProcessor) = 56 \<and>
   TargetWidth (WithResolution 1120 1120 NewStreamProcessor) = 1120 \<and>
   TargetHeight (WithResolution 1120 1120 NewStreamProcessor) = 1120 \<and>
   TargetWidth (WithResolution 30 42 NewStreamProcessor) = 28 \<and>
   TargetHeight (WithResolution 30 42 NewStreamProcessor) = 28"
  using WithResolution_nearest_multiple [of 100 50 NewStreamProcessor]
    WithResolution_nearest_multiple [of 1120 1120 NewStreamProcessor]
    WithResolution_nearest_multiple [of 30 42 NewStreamProcessor]
  by simp

section \<open>Parameter-set injection\<close>

text \<open>
  Claim C3. When the stored SPS and PPS both decode from base64, \<open>injectSPSPPS\<close>
  returns the start code \<open>00 00 00 01\<close>, the decoded SPS, the start code, the decoded
  PPS and the input, in this order, so the output has
  \<open>8 + len(SPS) + len(PPS) + len(input)\<close> bytes. When the SPS does not decode it
  returns the error "invalid SPS: ..." and no buffer; when the SPS decodes and the PPS
  does not, the error "invalid PPS: ..." and no buffer.
\<close>

theorem injectSPSPPS_prepends_parameter_sets:
  "(\<not> snd (base64_DecodeString (SPS sp)) \<and> \<not> snd (base64_DecodeString (PPS sp)) \<longrightarrow>
      injectSPSPPS sp h264Data =
        Inr ([0x00, 0x00, 0x00, 0x01] @ fst (base64_DecodeString (SPS sp)) @
             [0x00, 0x00, 0x00, 0x01] @ fst (base64_DecodeString (PPS sp)) @ h264Data) \<and>
      (\<forall>out. injectSPSPPS sp h264Data = Inr out \<longrightarrow>
         length out = 8 + length (fst (base64_DecodeString (SPS sp))) +
                      length (fst (base64_DecodeString (PPS sp))) + length h264Data)) \<and>
   (snd (base64_DecodeString (SPS sp)) \<longrightarrow>
      injectSPSPPS sp h264Data = Inl (Wrapped ''invalid SPS'' CorruptInputError)) \<and>
   (\<not> snd (base64_DecodeString (SPS sp)) \<and> snd (base64_DecodeString (PPS sp)) \<longrightarrow>
      injectSPSPPS sp h264Data = Inl (Wrapped ''invalid PPS'' CorruptInputError))"
  by (auto simp: injectSPSPPS_def startCode_def split: prod.splits)

text \<open>
  The default parameter sets of \<open>NewStreamProcessor\<close> decode to an SPS of ten bytes and
  a PPS of four; a character outside the alphabet, or a missing padding character, is
  a \<open>CorruptInputError\<close>.
\<close>

lemma decode_default_SPS:
  "base64_DecodeString ''Z0LADJoFAAABMA=='' =
     ([0x67, 0x42, 0xC0, 0x0C, 0x9A, 0x05, 0x00, 0x00, 0x01, 0x30], False)"
  by (simp add: base64_DecodeString_def decodeMap_def encodeStd_def quantum_bytes_def)

lemma decode_default_PPS:
  "base64_DecodeString ''aM48gA=='' = ([0x68, 0xCE, 0x3C, 0x80], False)"
  by (simp add: base64_DecodeString_def decodeMap_def encodeStd_def quantum_bytes_def)

lemma decode_truncated_PPS:
  "base64_DecodeString ''aM48gA='' = ([0x68, 0xCE, 0x3C], True)"
  by (simp add: base64_DecodeString_def decodeMap_def encodeStd_def quantum_bytes_def)

lemma decode_bad_SPS:
  "snd (base64_DecodeString ''Z0LA*JoF'')"
  by (simp add: base64_DecodeString_def decodeMap_def encodeStd_def quantum_bytes_def)

text \<open>
  The theorem at the default processor, at one with a corrupt SPS and at one with a
  corrupt PPS.
\<close>

theorem injectSPSPPS_prepends_parameter_sets_witness:
  "\<not> snd (base64_DecodeString (SPS NewStreamProcessor)) \<and>
   \<not> snd (base64_DecodeString (PPS NewStreamProcessor)) \<and>
   injectSPSPPS NewStreamProcessor [0x00, 0x00, 0x01, 0x65] =
     Inr [0x00, 0x00, 0x00, 0x01, 0x67, 0x42, 0xC0, 0x0C, 0x9A, 0x05, 0x00, 0x00, 0x01, 0x30,
          0x00, 0x00, 0x00, 0x01, 0x68, 0xCE, 0x3C, 0x80,
          0x00, 0x00, 0x01, 0x65] \<and>
   snd (base64_DecodeString (SPS (NewStreamProcessor\<lparr>SPS := ''Z0LA*JoF''\<rparr>))) \<and>
   injectSPSPPS (NewStreamProcessor\<lparr>SPS := ''Z0LA*JoF''\<rparr>) [0x00, 0x00, 0x01, 0x65] =
     Inl (Wrapped ''invalid SPS'' CorruptInputError) \<and>
   snd (base64_DecodeString (PPS (NewStreamProcessor\<lparr>PPS := ''aM48gA=''\<rparr>))) \<and>
   injectSPSPPS (NewStreamProcessor\<lparr>PPS := ''aM48gA=''\<rparr>) [0x00, 0x00, 0x01, 0x65] =
     Inl (Wrapped ''invalid PPS'' CorruptInputError)"
  using injectSPSPPS_prepends_parameter_sets [of NewStreamProcessor "[0x00, 0x00, 0x01, 0x65]"]
    injectSPSPPS_prepends_parameter_sets
      [of "NewStreamProcessor\<lparr>SPS := ''Z0LA*JoF''\<rparr>" "[0x00, 0x00, 0x01, 0x65]"]
    injectSPSPPS_prepends_parameter_sets
      [of "NewStreamProcessor\<lparr>PPS := ''aM48gA=''\<rparr>" "[0x00, 0x00, 0x01, 0x65]"]
  by (simp add: NewStreamProcessor_def decode_default_SPS decode_default_PPS
      decode_truncated_PPS decode_bad_SPS)

section \<open>The early return of \<open>ExtractFramesWithContext\<close>\<close>

lemma go_mul_zero: "go_mul 0 b = 0" "go_mul a 0 = 0"
  by (simp_all add: go_mul_def wrap64_def)

lemma float64_to_int_below_one: "0 \<le> d \<Longrightarrow> d < 1 \<Longrightarrow> float64_to_int d = 0"
  by (simp add: float64_to_int_def floor_eq_iff)

text \<open>
  Claim C9. Let \<open>ffmpeg\<close> be found and let the probe give the duration \<open>d\<close>. When
  \<open>int(d) * FPS = 0\<close>, \<open>ExtractFramesWithContext\<close> returns the error "video too short
  or invalid", and the calls it has made are the lookup and the probe only: neither the
  decode subprocess nor the demuxer is invoked. The condition holds in particular for
  every duration below one second and for \<open>FPS = 0\<close>.
\<close>

theorem too_short_video_returns_before_decoding:
  assumes "LookPath env ''ffmpeg'' = None"
    and "getVideoDuration env videoPath = Inr d"
  shows
    "(go_mul (float64_to_int d) (vp_FPS vp) = 0 \<longrightarrow>
        ExtractFramesWithContext env sched vp videoPath =
          ([CallLookPath ''ffmpeg'', CallFFprobe videoPath], Returns (Inl VideoTooShort)) \<and>
        (\<forall>args. CallFFmpeg args \<notin> set (fst (ExtractFramesWithContext env sched vp videoPath))) \<and>
        (\<forall>data. CallSplit data \<notin> set (fst (ExtractFramesWithContext env sched vp videoPath)))) \<and>
     ((0 \<le> d \<and> d < 1) \<or> vp_FPS vp = 0 \<longrightarrow> go_mul (float64_to_int d) (vp_FPS vp) = 0)"
proof -
  have "ExtractFramesWithContext env sched vp videoPath =
          ([CallLookPath ''ffmpeg'', CallFFprobe videoPath], Returns (Inl VideoTooShort))"
    if "go_mul (float64_to_int d) (vp_FPS vp) = 0"
    using assms that by (simp add: ExtractFramesWithContext_def)
  moreover have "go_mul (float64_to_int d) (vp_FPS vp) = 0"
    if "(0 \<le> d \<and> d < 1) \<or> vp_FPS vp = 0"
    using that by (auto simp: go_mul_zero float64_to_int_below_one)
  ultimately show ?thesis by auto
qed

text \<open>
  The theorem at a clip of three quarters of a second, two frames per second.
\<close>

theorem too_short_video_returns_before_decoding_witness:
  "LookPath \<lparr>LookPath = (\<lambda>name. None), getVideoDuration = (\<lambda>path. Inr (3 / 4)),
              ffmpeg = (\<lambda>args. Inr [0xFF, 0xD8, 0xFF, 0xD9]),
              makechan_limit = 2 ^ 20\<rparr> ''ffmpeg'' = None \<and>
   getVideoDuration \<lparr>LookPath = (\<lambda>name. None), getVideoDuration = (\<lambda>path. Inr (3 / 4)),
              ffmpeg = (\<lambda>args. Inr [0xFF, 0xD8, 0xFF, 0xD9]),
              makechan_limit = 2 ^ 20\<rparr> ''clip.mp4'' = Inr (3 / 4) \<and>
   (0::real) \<le> 3 / 4 \<and> (3 / 4 :: real) < 1 \<and>
   ExtractFramesWithContext
     \<lparr>LookPath = (\<lambda>name. None), getVideoDuration = (\<lambda>path. Inr (3 / 4)),
        ffmpeg = (\<lambda>args. Inr [0xFF, 0xD8, 0xFF, 0xD9]),
              makechan_limit = 2 ^ 20\<rparr>
     rev
     \<lparr>vp_FPS = 2, MaxWorkers = 4, BufferSize = 100, EnableHWAccel = True, UseStreamMode = False\<rparr>
     ''clip.mp4'' =
     ([CallLookPath ''ffmpeg'', CallFFprobe ''clip.mp4''], Returns (Inl VideoTooShort))"
  using too_short_video_returns_before_decoding
    [of "\<lparr>LookPath = (\<lambda>name. None), getVideoDuration = (\<lambda>path. Inr (3 / 4)),
          ffmpeg = (\<lambda>args. Inr [0xFF, 0xD8, 0xFF, 0xD9]),
              makechan_limit = 2 ^ 20\<rparr>" "''clip.mp4''" "3 / 4"
        "\<lparr>vp_FPS = 2, MaxWorkers = 4, BufferSize = 100, EnableHWAccel = True,
          UseStreamMode = False\<rparr>" rev]
  by simp

section \<open>\<open>Cleanup\<close>\<close>

text \<open>
  Claim C10. After a call of \<open>Cleanup\<close> the field \<open>tempDir\<close> is the empty string,
  whatever \<open>os.RemoveAll\<close> answered. A call made while \<open>tempDir\<close> is empty removes
  nothing, returns \<open>nil\<close> and leaves the processor as it was; so does a second call
  right after a first one.
\<close>

theorem Cleanup_idempotent:
  "tempDir (snd (snd (Cleanup RemoveAll sp))) = [] \<and>
   (tempDir sp = [] \<longrightarrow> Cleanup RemoveAll sp = ([], None, sp)) \<and>
   Cleanup RemoveAll' (snd (snd (Cleanup RemoveAll sp))) =
     ([], None, snd (snd (Cleanup RemoveAll sp)))"
  by (simp add: Cleanup_def Let_def)

text \<open>
  The theorem at a processor with a temporary directory whose removal fails, and at the
  processor that call leaves behind.
\<close>

theorem Cleanup_idempotent_witness:
  "Cleanup (\<lambda>path. Some (External ''permission denied''))
     (NewStreamProcessor\<lparr>tempDir := ''/tmp/h264stream-1''\<rparr>) =
     ([''/tmp/h264stream-1''], Some (External ''permission denied''), NewStreamProcessor) \<and>
   tempDir NewStreamProcessor = [] \<and>
   Cleanup (\<lambda>path. Some (External ''permission denied'')) NewStreamProcessor =
     ([], None, NewStreamProcessor)"
  using Cleanup_idempotent [of "\<lambda>path. Some (External ''permission denied'')"
      "NewStreamProcessor\<lparr>tempDir := ''/tmp/h264stream-1''\<rparr>"
      "\<lambda>path. Some (External ''permission denied'')"]
    Cleanup_idempotent [of "\<lambda>path. Some (External ''permission denied'')" NewStreamProcessor]
  by (simp add: Cleanup_def NewStreamProcessor_def)

section \<open>The streaming worker\<close>

text \<open>
  What the worker does in one iteration: it exits when the context is done or the read
  reports an error (a read error other than \<open>io.EOF\<close> is sent on the error channel
  first); a chunk read without error is handed to the pipeline; a chunk whose
  processing fails gives exactly one event on the error channel, and the loop goes on
  with the next iteration.
\<close>

lemma Start_worker_cancelled:
  "ctx_done it \<Longrightarrow> Start_worker (it # its) = exit_events"
  by simp

lemma Start_worker_read_error:
  "\<not> ctx_done it \<Longrightarrow> read_err it = Some err \<Longrightarrow>
     Start_worker (it # its) = (if err \<noteq> EOF then [ErrorSent err] else []) @ exit_events"
  by simp

lemma Start_worker_processes_chunk:
  "\<not> ctx_done it \<Longrightarrow> read_err it = None \<Longrightarrow> read_bytes it \<noteq> [] \<Longrightarrow>
     \<exists>evs. Start_worker (it # its) = Processed (read_bytes it) # evs"
  by simp

lemma Start_worker_failed_chunk:
  "\<not> ctx_done it \<Longrightarrow> read_err it = None \<Longrightarrow> read_bytes it \<noteq> [] \<Longrightarrow>
     process_result it = Inl err \<Longrightarrow>
     Start_worker (it # its) = Processed (read_bytes it) # ErrorSent err # Start_worker its"
  by simp

text \<open>
  When the worker exits, it has closed the error channel and the frame channel, in this
  order, right before \<open>wg.Done()\<close>, and these are its last three events.
\<close>

lemma Start_worker_exit:
  "WorkerDone \<in> set (Start_worker its) \<Longrightarrow>
     \<exists>evs. Start_worker its = evs @ [ErrorChannelClosed, FrameChannelClosed, WorkerDone] \<and>
           ErrorChannelClosed \<notin> set evs \<and> FrameChannelClosed \<notin> set evs \<and>
           WorkerDone \<notin> set evs"
proof (induction its)
  case Nil
  then show ?case by simp
next
  case (Cons it its)
  let ?tail = "[ErrorChannelClosed, FrameChannelClosed, WorkerDone]"
  have ext: "\<exists>evs. pre @ Start_worker its = evs @ ?tail \<and>
           ErrorChannelClosed \<notin> set evs \<and> FrameChannelClosed \<notin> set evs \<and>
           WorkerDone \<notin> set evs"
    if "WorkerDone \<in> set (pre @ Start_worker its)"
      and "ErrorChannelClosed \<notin> set pre" "FrameChannelClosed \<notin> set pre"
      "WorkerDone \<notin> set pre" for pre
  proof -
    from that have "WorkerDone \<in> set (Start_worker its)" by simp
    from Cons.IH [OF this] obtain evs where
      "Start_worker its = evs @ ?tail" "ErrorChannelClosed \<notin> set evs"
      "FrameChannelClosed \<notin> set evs" "WorkerDone \<notin> set evs" by blast
    with that have "pre @ Start_worker its = (pre @ evs) @ ?tail \<and>
           ErrorChannelClosed \<notin> set (pre @ evs) \<and> FrameChannelClosed \<notin> set (pre @ evs) \<and>
           WorkerDone \<notin> set (pre @ evs)" by simp
    then show ?thesis by blast
  qed
  have fin: "\<exists>evs. pre @ ?tail = evs @ ?tail \<and>
           ErrorChannelClosed \<notin> set evs \<and> FrameChannelClosed \<notin> set evs \<and>
           WorkerDone \<notin> set evs"
    if "ErrorChannelClosed \<notin> set pre" "FrameChannelClosed \<notin> set pre"
      "WorkerDone \<notin> set pre" for pre
    using that by blast
  show ?case
  proof (cases "ctx_done it")
    case True
    then show ?thesis using fin [of "[]"] by (simp add: exit_events_def)
  next
    case notdone: False
    show ?thesis
    proof (cases "read_err it")
      case (Some err)
      with notdone show ?thesis
        using fin [of "[ErrorSent err]"] fin [of "[]"] by (simp add: exit_events_def)
    next
      case None
      show ?thesis
      proof (cases "read_bytes it = []")
        case True
        with notdone None Cons.prems show ?thesis
          using ext [of "[]"] by simp
      next
        case False
        show ?thesis
        proof (cases "process_result it")
          case (Inl err)
          with notdone None False Cons.prems show ?thesis
            using ext [of "[Processed (read_bytes it), ErrorSent err]"] by simp
        next
          case (Inr frames)
          let ?fd = "map (\<lambda>frameB64. fst (base64_DecodeString frameB64)) frames"
          have nf: "ErrorChannelClosed \<notin> set (Processed c # map FrameSent xs)"
            "FrameChannelClosed \<notin> set (Processed c # map FrameSent xs)"
            "WorkerDone \<notin> set (Processed c # map FrameSent xs)" for c xs
            by auto
          show ?thesis
          proof (cases "\<exists>k. cancel_after it = Some k \<and> k < length ?fd")
            case True
            then obtain k where k: "cancel_after it = Some k" "k < length ?fd" by blast
            with notdone None False Inr show ?thesis
              using fin [OF nf, of "read_bytes it" "take k ?fd"]
              by (simp add: exit_events_def Let_def)
          next
            case nocancel: False
            with notdone None False Inr
            have eq: "Start_worker (it # its) =
                (Processed (read_bytes it) # map FrameSent ?fd) @ Start_worker its"
              by (auto simp: Let_def split: option.splits)
            with Cons.prems show ?thesis
              using ext [OF _ nf, of "read_bytes it" ?fd] by simp
          qed
        qed
      qed
    qed
  qed
qed

text \<open>
  The scenario of the specification: three chunks, the second of which fails, then the
  end of the input.
\<close>

lemma streaming_scenario:
  "Start_worker
     [\<lparr>ctx_done = False, read_bytes = [0x01], read_err = None,
        process_result = Inr [''/9j/2Q==''], cancel_after = None\<rparr>,
      \<lparr>ctx_done = False, read_bytes = [0x02], read_err = None,
        process_result = Inl (Wrapped ''failed to extract frames'' NoFramesFound),
        cancel_after = None\<rparr>,
      \<lparr>ctx_done = False, read_bytes = [0x03], read_err = None,
        process_result = Inr [''/9gA/9k=''], cancel_after = None\<rparr>,
      \<lparr>ctx_done = False, read_bytes = [], read_err = Some EOF,
        process_result = Inr [], cancel_after = None\<rparr>] =
     [Processed [0x01], FrameSent [0xFF, 0xD8, 0xFF, 0xD9],
      Processed [0x02], ErrorSent (Wrapped ''failed to extract frames'' NoFramesFound),
      Processed [0x03], FrameSent [0xFF, 0xD8, 0x00, 0xFF, 0xD9],
      ErrorChannelClosed, FrameChannelClosed, WorkerDone]"
  by (simp add: exit_events_def base64_DecodeString_def decodeMap_def encodeStd_def
      quantum_bytes_def)

text \<open>
  Claim C7 says that every non-empty chunk read from the source is run through the
  pipeline. The worker tests \<open>err != nil\<close> before it looks at \<open>n\<close>: when \<open>Read\<close>
  returns \<open>n = 4\<close> bytes together with \<open>io.EOF\<close>, which the contract of \<open>io.Reader\<close>
  allows, the worker exits and the four bytes are never processed.
\<close>

theorem worker_drops_chunk_returned_with_EOF:
  "Start_worker
     [\<lparr>ctx_done = False, read_bytes = [0x00, 0x00, 0x01, 0x65], read_err = Some EOF,
        process_result = Inr [''/9j/2Q==''], cancel_after = None\<rparr>] =
     [ErrorChannelClosed, FrameChannelClosed, WorkerDone] \<and>
   Processed [0x00, 0x00, 0x01, 0x65] \<notin> set (Start_worker
     [\<lparr>ctx_done = False, read_bytes = [0x00, 0x00, 0x01, 0x65], read_err = Some EOF,
        process_result = Inr [''/9j/2Q==''], cancel_after = None\<rparr>])"
  by (simp add: exit_events_def)

end
